theory Spec2Isabelle
  imports Main
begin

section \<open>Errors, the local filesystem and the observable world\<close>

text \<open>
  The repository has two modules: \<^verbatim>\<open>drive_api_tools.py\<close> (authentication, paginated
  metadata query, chunked download) and \<^verbatim>\<open>download.py\<close> (class \<^verbatim>\<open>Download\<close>: skip-if-present
  download of one file, bulk download over a listing, listing of a folder).

  Every exception of the Python code is a value of type \<open>error\<close>; a function that can raise
  returns \<open>error + 'a\<close> with \<open>Inl\<close> for the exception.
\<close>

datatype error =
    KeyError string
  | IsADirectoryError string
  | OSError string
  | ValueError
  | HttpError nat
  | TransportError
  | RefreshError
  | FlowError

text \<open>
  The local filesystem maps a path, taken as the string the program passes, to what is
  found there. \<^verbatim>\<open>os.path.isfile\<close> holds of regular files only, \<^verbatim>\<open>os.path.exists\<close> of
  anything present. Two spellings of one file, such as \<^verbatim>\<open>dest/x.txt\<close> and
  \<^verbatim>\<open>dest/./x.txt\<close>, are two keys here; a statement that compares the destinations of
  different items is therefore made for plain names only (\<open>plain_name\<close> below), for
  which different strings are different files.
\<close>

datatype node = RegularFile string | Directory

text \<open>The arguments of one \<^verbatim>\<open>service.files().list(...)\<close> request (lines 79 to 84).\<close>

record list_request =
  req_q :: string
  req_spaces :: string
  req_fields :: string
  req_pageToken :: "string option"

text \<open>
  The calls that leave the process: the refresh round trip, the interactive authorization
  flow, one page request, one chunk request of the download of a file id.
\<close>

datatype call =
    Refresh
  | RunLocalServer
  | FilesList list_request
  | NextChunk string

text \<open>
  The world a call runs in and leaves behind: the disk, the paths at which \<^verbatim>\<open>open\<close> for
  writing raises (missing parent directory, permissions), the calls issued so far in order,
  and the lines printed.
\<close>

record world =
  disk :: "string \<Rightarrow> node option"
  open_error :: "string \<Rightarrow> error option"
  calls :: "call list"
  stdout :: "string list"

definition isfile :: "world \<Rightarrow> string \<Rightarrow> bool" where
  "isfile w p = (case disk w p of Some (RegularFile _) \<Rightarrow> True | _ \<Rightarrow> False)"

definition exists_path :: "world \<Rightarrow> string \<Rightarrow> bool" where
  "exists_path w p = (disk w p \<noteq> None)"

definition print :: "string \<Rightarrow> world \<Rightarrow> world" where
  "print s w = w\<lparr>stdout := stdout w @ [s]\<rparr>"

definition issue :: "call \<Rightarrow> world \<Rightarrow> world" where
  "issue c w = w\<lparr>calls := calls w @ [c]\<rparr>"

text \<open>
  \<^verbatim>\<open>open(path, 'w')\<close> and \<^verbatim>\<open>open(path, 'wb')\<close>: raise where the path cannot be opened or
  is a directory, and otherwise create the file or truncate it to length zero.
\<close>

definition open_w :: "string \<Rightarrow> world \<Rightarrow> error + world" where
  "open_w p w =
     (case open_error w p of
        Some e \<Rightarrow> Inl e
      | None \<Rightarrow>
          (case disk w p of
             Some Directory \<Rightarrow> Inl (IsADirectoryError p)
           | _ \<Rightarrow> Inr (w\<lparr>disk := (disk w)(p \<mapsto> RegularFile [])\<rparr>)))"

text \<open>What the file at \<open>p\<close> holds once \<open>buf\<close> has been written through the open handle.\<close>

definition write_file :: "string \<Rightarrow> string \<Rightarrow> world \<Rightarrow> world" where
  "write_file p buf w = w\<lparr>disk := (disk w)(p \<mapsto> RegularFile buf)\<rparr>"

section \<open>The remote service\<close>

text \<open>
  A metadata entry is a Python dict; \<^verbatim>\<open>d[k]\<close> raises \<^verbatim>\<open>KeyError\<close> on a missing key.
\<close>

type_synonym metadata = "(string \<times> string) list"

definition getitem :: "metadata \<Rightarrow> string \<Rightarrow> error + string" where
  "getitem d k = (case map_of d k of None \<Rightarrow> Inl (KeyError k) | Some v \<Rightarrow> Inr v)"

text \<open>
  One page of a listing: the \<^verbatim>\<open>files\<close> key and the \<^verbatim>\<open>nextPageToken\<close> key, either of
  which may be missing from the response.
\<close>

record response =
  resp_files :: "metadata list option"
  resp_nextPageToken :: "string option"

text \<open>
  The service object stands for the remote store. \<open>files_list svc n req\<close> is what the
  \<open>n\<close>-th page request of one query returns or raises, given the request sent;
  \<open>next_chunk svc fileId n\<close> is what the \<open>n\<close>-th \<^verbatim>\<open>downloader.next_chunk()\<close> of a download
  of \<open>fileId\<close> returns (the bytes it wrote to the file handle, and \<^verbatim>\<open>done\<close>) or raises.
\<close>

record service =
  files_list :: "nat \<Rightarrow> list_request \<Rightarrow> error + response"
  next_chunk :: "string \<Rightarrow> nat \<Rightarrow> error + (string \<times> bool)"

section \<open>drive_api_tools.get_api_service\<close>

text \<open>
  What the code reads of a \<^verbatim>\<open>Credentials\<close> object: the access token, the refresh token and
  whether it has expired at the time of the call. \<^verbatim>\<open>creds.valid\<close> is the library's property:
  a token is present and the credential has not expired. A \<^verbatim>\<open>Credentials\<close> object is always
  truthy, so \<^verbatim>\<open>not creds\<close> holds of \<^verbatim>\<open>None\<close> only; \<^verbatim>\<open>creds.refresh_token\<close> is truthy when
  it is a non-empty string.
\<close>

record credential =
  token :: "string option"
  refresh_token :: "string option"
  expired :: bool

definition valid :: "credential \<Rightarrow> bool" where
  "valid c = (token c \<noteq> None \<and> \<not> expired c)"

definition has_refresh_token :: "credential \<Rightarrow> bool" where
  "has_refresh_token c = (case refresh_token c of None \<Rightarrow> False | Some s \<Rightarrow> s \<noteq> [])"

text \<open>
  The module \<^verbatim>\<open>config\<close> is imported by the code and supplies these five constants.
\<close>

record config =
  TOKEN_FILE :: string
  CREDENTIALS_FILE :: string
  SCOPES :: "string list"
  API_NAME :: string
  API_VERSION :: string

datatype flow = InstalledAppFlow string "string list"

text \<open>
  The library calls of \<^verbatim>\<open>get_api_service\<close>, each returning its value or the exception it
  raises: parsing the token file's content into a credential, the refresh round trip,
  parsing the client secrets, the interactive flow, serialising a credential, and building
  the service object. The interactive flow prints its authorization prompt, so
  \<open>run_local_server\<close> gives the lines it prints together with its result.
\<close>

record auth =
  from_authorized_user_info :: "string \<Rightarrow> string list \<Rightarrow> error + credential"
  refresh :: "credential \<Rightarrow> error + credential"
  from_client_config :: "string \<Rightarrow> string list \<Rightarrow> error + flow"
  run_local_server :: "flow \<Rightarrow> string list \<times> (error + credential)"
  to_json :: "credential \<Rightarrow> string"
  build :: "string \<Rightarrow> string \<Rightarrow> credential \<Rightarrow> error + service"

text \<open>Opening a path for reading and reading it whole.\<close>

definition read_text :: "string \<Rightarrow> world \<Rightarrow> error + string" where
  "read_text p w =
     (case disk w p of
        None \<Rightarrow> Inl (OSError p)
      | Some Directory \<Rightarrow> Inl (IsADirectoryError p)
      | Some (RegularFile s) \<Rightarrow> Inr s)"

text \<open>Lines 23 to 27: \<open>None\<close> unless the token file exists, else the credential loaded from it.\<close>

definition load_credentials :: "config \<Rightarrow> auth \<Rightarrow> world \<Rightarrow> error + credential option" where
  "load_credentials cfg au w =
     (if exists_path w (TOKEN_FILE cfg)
      then (case read_text (TOKEN_FILE cfg) w of
              Inl e \<Rightarrow> Inl e
            | Inr s \<Rightarrow>
                (case from_authorized_user_info au s (SCOPES cfg) of
                   Inl e \<Rightarrow> Inl e
                 | Inr c \<Rightarrow> Inr (Some c)))
      else Inr None)"

text \<open>
  \<^verbatim>\<open>InstalledAppFlow.from_client_secrets_file\<close>: read the client secrets file and parse it.
  No call leaves the process here.
\<close>

definition from_client_secrets_file ::
  "auth \<Rightarrow> string \<Rightarrow> string list \<Rightarrow> world \<Rightarrow> error + flow" where
  "from_client_secrets_file au path scopes w =
     (case read_text path w of
        Inl e \<Rightarrow> Inl e
      | Inr s \<Rightarrow> from_client_config au s scopes)"

text \<open>Lines 34 to 37: the interactive authorization flow.\<close>

definition authorize :: "config \<Rightarrow> auth \<Rightarrow> world \<Rightarrow> (error + credential) \<times> world" where
  "authorize cfg au w =
     (case from_client_secrets_file au (CREDENTIALS_FILE cfg) (SCOPES cfg) w of
        Inl e \<Rightarrow> (Inl e, w)
      | Inr fl \<Rightarrow>
          (case run_local_server au fl of
             (out, r) \<Rightarrow> (r, (issue RunLocalServer w)\<lparr>stdout := stdout w @ out\<rparr>)))"

text \<open>
  Lines 31 to 41, the body of \<^verbatim>\<open>if not creds or not creds.valid\<close>: refresh or authorize,
  then write the credential to the token file.
\<close>

definition renew ::
  "config \<Rightarrow> auth \<Rightarrow> credential option \<Rightarrow> world \<Rightarrow> (error + credential) \<times> world" where
  "renew cfg au creds w =
     (case (case creds of
              Some c \<Rightarrow>
                if expired c \<and> has_refresh_token c
                then (refresh au c, issue Refresh w)
                else authorize cfg au w
            | None \<Rightarrow> authorize cfg au w) of
        (Inl e, w1) \<Rightarrow> (Inl e, w1)
      | (Inr c', w1) \<Rightarrow>
          (case open_w (TOKEN_FILE cfg) w1 of
             Inl e \<Rightarrow> (Inl e, w1)
           | Inr w2 \<Rightarrow> (Inr c', write_file (TOKEN_FILE cfg) (to_json au c') w2)))"

definition get_api_service :: "config \<Rightarrow> auth \<Rightarrow> world \<Rightarrow> (error + service) \<times> world" where
  "get_api_service cfg au w =
     (case load_credentials cfg au w of
        Inl e \<Rightarrow> (Inl e, w)
      | Inr creds \<Rightarrow>
          (case (case creds of
                   None \<Rightarrow> renew cfg au None w
                 | Some c \<Rightarrow> if \<not> valid c then renew cfg au (Some c) w else (Inr c, w)) of
             (Inl e, w1) \<Rightarrow> (Inl e, w1)
           | (Inr c, w1) \<Rightarrow> (build au (API_NAME cfg) (API_VERSION cfg) c, w1)))"

section \<open>drive_api_tools.query_metadata\<close>

definition list_request :: "string \<Rightarrow> string \<Rightarrow> string option \<Rightarrow> list_request" where
  "list_request query flds page_token =
     \<lparr>req_q = query, req_spaces = ''drive'',
      req_fields = ''nextPageToken, files('' @ flds @ '')'',
      req_pageToken = page_token\<rparr>"

text \<open>\<^verbatim>\<open>response.get('files', [])\<close>\<close>

definition page_files :: "response \<Rightarrow> metadata list" where
  "page_files r = (case resp_files r of None \<Rightarrow> [] | Some fl \<Rightarrow> fl)"

text \<open>
  The \<^verbatim>\<open>while True\<close> loop of lines 78 to 89, entered at its \<open>n\<close>-th iteration with the
  items collected so far and the current page token. It may run forever, in which case
  the value is \<open>None\<close>.
\<close>

partial_function (option) query_loop ::
  "service \<Rightarrow> string \<Rightarrow> string \<Rightarrow> nat \<Rightarrow> metadata list \<Rightarrow> string option \<Rightarrow> world
     \<Rightarrow> ((error + metadata list) \<times> world) option" where
  "query_loop svc query flds n acc page_token w =
     (case files_list svc n (list_request query flds page_token) of
        Inl e \<Rightarrow> Some (Inl e, issue (FilesList (list_request query flds page_token)) w)
      | Inr r \<Rightarrow>
          (case resp_nextPageToken r of
             None \<Rightarrow>
               Some (Inr (acc @ page_files r),
                     issue (FilesList (list_request query flds page_token)) w)
           | Some t \<Rightarrow>
               query_loop svc query flds (Suc n) (acc @ page_files r) (Some t)
                 (issue (FilesList (list_request query flds page_token)) w)))"

declare query_loop.simps [code]

definition query_metadata ::
  "service \<Rightarrow> string \<Rightarrow> string \<Rightarrow> world \<Rightarrow> ((error + metadata list) \<times> world) option" where
  "query_metadata svc query flds w = query_loop svc query flds 0 [] None w"

section \<open>drive_api_tools.download_metadata\<close>

text \<open>
  Line 166 only builds the request object; the first bytes travel with the first
  \<^verbatim>\<open>next_chunk\<close>. Line 168 opens the destination before any chunk is requested.
\<close>

text \<open>
  The \<^verbatim>\<open>while not done\<close> loop of lines 171 and 172, entered at its \<open>n\<close>-th iteration with
  \<open>buf\<close> written to the handle so far. A chunk request that raises leaves the loop and the
  \<^verbatim>\<open>with\<close> block, which closes the handle; nothing removes the file.
\<close>

partial_function (option) chunk_loop ::
  "service \<Rightarrow> string \<Rightarrow> string \<Rightarrow> nat \<Rightarrow> string \<Rightarrow> world
     \<Rightarrow> ((error + unit) \<times> world) option" where
  "chunk_loop svc fileId save_file n buf w =
     (case next_chunk svc fileId n of
        Inl e \<Rightarrow> Some (Inl e, issue (NextChunk fileId) w)
      | Inr (data, done) \<Rightarrow>
          (if done
           then Some (Inr (), write_file save_file (buf @ data) (issue (NextChunk fileId) w))
           else chunk_loop svc fileId save_file (Suc n) (buf @ data)
                  (write_file save_file (buf @ data) (issue (NextChunk fileId) w))))"

declare chunk_loop.simps [code]

definition download_metadata ::
  "service \<Rightarrow> string \<Rightarrow> string \<Rightarrow> world \<Rightarrow> ((error + unit) \<times> world) option" where
  "download_metadata svc fileId save_file w =
     (case open_w save_file w of
        Inl e \<Rightarrow> Some (Inl e, w)
      | Inr w1 \<Rightarrow> chunk_loop svc fileId save_file 0 [] w1)"

section \<open>download.Download\<close>

definition download_file ::
  "service \<Rightarrow> string \<Rightarrow> string \<Rightarrow> world \<Rightarrow> ((error + unit) \<times> world) option" where
  "download_file svc cloud_file_id save_file w =
     (let w1 = print (''-- Downloading file with ID='' @ cloud_file_id @ '' to '' @ save_file) w
      in if \<not> isfile w1 save_file
         then (case download_metadata svc cloud_file_id save_file w1 of
                 None \<Rightarrow> None
               | Some (Inl e, w2) \<Rightarrow> Some (Inl e, w2)
               | Some (Inr u, w2) \<Rightarrow> Some (Inr (), print ''-- Download successful'' w2))
         else Some (Inr (), print ''-- Download failed: File already exists'' w1))"

text \<open>\<^verbatim>\<open>os.path.join\<close> of two components, as \<^verbatim>\<open>posixpath\<close> computes it.\<close>

definition join :: "string \<Rightarrow> string \<Rightarrow> string" where
  "join a b =
     (if (case b of [] \<Rightarrow> False | c # _ \<Rightarrow> c = CHR ''/'') then b
      else if a = [] \<or> last a = CHR ''/'' then a @ b
      else a @ ''/'' @ b)"

fun download_files ::
  "service \<Rightarrow> metadata list \<Rightarrow> string \<Rightarrow> world \<Rightarrow> ((error + unit) \<times> world) option" where
  "download_files svc [] save_folder w = Some (Inr (), w)"
| "download_files svc (item # rest) save_folder w =
     (case getitem item ''name'' of
        Inl e \<Rightarrow> Some (Inl e, w)
      | Inr basename \<Rightarrow>
          (case getitem item ''id'' of
             Inl e \<Rightarrow> Some (Inl e, w)
           | Inr fileId \<Rightarrow>
               (case download_file svc fileId (join save_folder basename) w of
                  None \<Rightarrow> None
                | Some (Inl e, w') \<Rightarrow> Some (Inl e, w')
                | Some (Inr u, w') \<Rightarrow> download_files svc rest save_folder w')))"

definition listdir_cloud_folder ::
  "service \<Rightarrow> string \<Rightarrow> world \<Rightarrow> ((error + metadata list) \<times> world) option" where
  "listdir_cloud_folder svc cloud_folder_id w =
     query_metadata svc ([CHR 0x27] @ cloud_folder_id @ [CHR 0x27] @ '' in parents'')
       ''id, name'' w"

section \<open>Behaviours of the remote store\<close>

text \<open>
  \<open>serves svc query flds n tok pages\<close>: from its \<open>n\<close>-th page request on, sent with page
  token \<open>tok\<close>, the store answers the requests of one query with the pages of the list, in
  order, each page but the last carrying the continuation token that the next request
  sends back, and the last page carrying none.
\<close>

fun serves ::
  "service \<Rightarrow> string \<Rightarrow> string \<Rightarrow> nat \<Rightarrow> string option \<Rightarrow> response list \<Rightarrow> bool" where
  "serves svc query flds n tok [] = False"
| "serves svc query flds n tok (p # ps) =
     (files_list svc n (list_request query flds tok) = Inr p \<and>
      (if ps = [] then resp_nextPageToken p = None
       else resp_nextPageToken p \<noteq> None \<and>
            serves svc query flds (Suc n) (resp_nextPageToken p) ps))"

text \<open>The page tokens of the requests that fetch these pages, starting with token \<open>tok\<close>.\<close>

fun page_tokens :: "string option \<Rightarrow> response list \<Rightarrow> string option list" where
  "page_tokens tok [] = []"
| "page_tokens tok (p # ps) = tok # page_tokens (resp_nextPageToken p) ps"

text \<open>
  \<open>delivers svc fileId n chunks\<close>: from its \<open>n\<close>-th chunk request on, a download of
  \<open>fileId\<close> receives these chunks, the last one reporting \<^verbatim>\<open>done\<close>.
  \<open>breaks_after svc fileId n chunks e\<close>: it receives these chunks, none reporting
  \<^verbatim>\<open>done\<close>, and the next chunk request raises \<open>e\<close>.
\<close>

fun delivers :: "service \<Rightarrow> string \<Rightarrow> nat \<Rightarrow> string list \<Rightarrow> bool" where
  "delivers svc fileId n [] = False"
| "delivers svc fileId n (d # ds) =
     (if ds = [] then next_chunk svc fileId n = Inr (d, True)
      else next_chunk svc fileId n = Inr (d, False) \<and> delivers svc fileId (Suc n) ds)"

fun breaks_after :: "service \<Rightarrow> string \<Rightarrow> nat \<Rightarrow> string list \<Rightarrow> error \<Rightarrow> bool" where
  "breaks_after svc fileId n [] e = (next_chunk svc fileId n = Inl e)"
| "breaks_after svc fileId n (d # ds) e =
     (next_chunk svc fileId n = Inr (d, False) \<and> breaks_after svc fileId (Suc n) ds e)"





section \<open>Concrete inputs\<close>

definition empty_world :: world where
  "empty_world = \<lparr>disk = Map.empty, open_error = Map.empty, calls = [], stdout = []\<rparr>"

definition item_x :: metadata where "item_x = [(''id'', ''a1''), (''name'', ''x.txt'')]"
definition item_y :: metadata where "item_y = [(''id'', ''a2''), (''name'', ''y.txt'')]"
definition item_z :: metadata where "item_z = [(''id'', ''a3''), (''name'', ''z.txt'')]"

definition page_one :: response where
  "page_one = \<lparr>resp_files = Some [item_x], resp_nextPageToken = Some ''t1''\<rparr>"

definition page_two :: response where
  "page_two = \<lparr>resp_files = Some [item_y], resp_nextPageToken = None\<rparr>"

text \<open>
  A store whose folder holds \<open>item_x\<close> and \<open>item_y\<close> on two pages of size one, joined by the
  token \<^verbatim>\<open>t1\<close>. Every file arrives in two chunks, except that the download of \<^verbatim>\<open>a2\<close>
  breaks after its first chunk.
\<close>

definition example_service :: service where
  "example_service =
     \<lparr>files_list = (\<lambda>n req.
        case req_pageToken req of
          None \<Rightarrow> Inr page_one
        | Some t \<Rightarrow> if t = ''t1'' then Inr page_two else Inl (HttpError 400)),
      next_chunk = (\<lambda>fileId n.
        if fileId = ''a2''
        then (if n = 0 then Inr (''par'', False) else Inl TransportError)
        else (if n = 0 then Inr (''he'', False) else Inr (''llo'', True)))\<rparr>"

text \<open>A response sequence: the first response is \<open>page_one\<close>, every later one \<open>page_two\<close>.\<close>

definition example_sequence :: "nat \<Rightarrow> response" where
  "example_sequence n = (if n = 0 then page_one else page_two)"

definition sequence_service :: service where
  "sequence_service =
     \<lparr>files_list = (\<lambda>n req. Inr (example_sequence n)),
      next_chunk = (\<lambda>fileId n. Inr ([], True))\<rparr>"


definition example_config :: config where
  "example_config =
     \<lparr>TOKEN_FILE = ''token.json'', CREDENTIALS_FILE = ''credentials.json'',
      SCOPES = [''https://www.googleapis.com/auth/drive''],
      API_NAME = ''drive'', API_VERSION = ''v3''\<rparr>"

definition expired_credential :: credential where
  "expired_credential = \<lparr>token = Some ''old'', refresh_token = Some ''r1'', expired = True\<rparr>"

definition fresh_credential :: credential where
  "fresh_credential = \<lparr>token = Some ''new'', refresh_token = Some ''r1'', expired = False\<rparr>"

definition example_auth :: auth where
  "example_auth =
     \<lparr>from_authorized_user_info = (\<lambda>s scopes.
        if s = ''old'' then Inr expired_credential
        else if s = ''new'' then Inr fresh_credential
        else Inl ValueError),
      refresh = (\<lambda>c. Inr (c\<lparr>token := Some ''new'', expired := False\<rparr>)),
      from_client_config = (\<lambda>s scopes. Inr (InstalledAppFlow s scopes)),
      run_local_server = (\<lambda>fl.
        ([''Please visit this URL to authorize this application''], Inr fresh_credential)),
      to_json = (\<lambda>c. case token c of None \<Rightarrow> [] | Some t \<Rightarrow> t),
      build = (\<lambda>name version c. Inr example_service)\<rparr>"

definition token_world :: "string \<Rightarrow> world" where
  "token_world s = empty_world\<lparr>disk := [''token.json'' \<mapsto> RegularFile s]\<rparr>"


definition locked_world :: world where
  "locked_world = empty_world\<lparr>open_error := [''dest/y.txt'' \<mapsto> OSError ''dest/y.txt'']\<rparr>"





definition x_world :: world where
  "x_world = empty_world\<lparr>disk := [''dest/x.txt'' \<mapsto> RegularFile ''stale'']\<rparr>"

section \<open>Facts about the world operations\<close>

lemma disk_print [simp]: "disk (print s w) = disk w"
  by (simp add: print_def)

lemma open_error_print [simp]: "open_error (print s w) = open_error w"
  by (simp add: print_def)

lemma calls_print [simp]: "calls (print s w) = calls w"
  by (simp add: print_def)

lemma isfile_print [simp]: "isfile (print s w) p = isfile w p"
  by (simp add: isfile_def)


section \<open>The pagination loop\<close>

lemma query_loop_serves:
  "serves svc query flds n tok pages \<Longrightarrow>
   query_loop svc query flds n acc tok w =
     Some (Inr (acc @ concat (map page_files pages)),
           w\<lparr>calls := calls w @
                map (FilesList \<circ> list_request query flds) (page_tokens tok pages)\<rparr>)"
proof (induction pages arbitrary: n tok acc w)
  case Nil
  then show ?case by simp
next
  case (Cons p ps)
  show ?case
  proof (cases "ps = []")
    case True
    with Cons.prems show ?thesis
      by (subst query_loop.simps) (simp add: issue_def)
  next
    case False
    with Cons.prems obtain t where t: "resp_nextPageToken p = Some t"
      and srv: "files_list svc n (list_request query flds tok) = Inr p"
      and rest: "serves svc query flds (Suc n) (Some t) ps"
      by auto
    show ?thesis
      by (subst query_loop.simps) (simp add: srv t Cons.IH [OF rest] issue_def)
  qed
qed

lemma length_page_tokens: "length (page_tokens tok pages) = length pages"
  by (induction pages arbitrary: tok) simp_all

lemma serves_sequence:
  assumes seq: "\<And>m tok. files_list svc m (list_request query flds tok) = Inr (resp m)"
    and last: "resp_nextPageToken (resp k) = None"
    and first: "\<forall>j<k. resp_nextPageToken (resp j) \<noteq> None"
  shows "n \<le> k \<Longrightarrow> serves svc query flds n tok (map resp [n..<Suc k])"
proof (induction "k - n" arbitrary: n tok)
  case 0
  then have "n = k" by simp
  then show ?case using seq last by simp
next
  case (Suc d)
  then have lt: "n < k" and d: "d = k - Suc n" and le: "Suc n \<le> k" by simp_all
  have up: "[n..<Suc k] = n # [Suc n..<Suc k]"
    using lt by (simp add: upt_conv_Cons)
  have ne: "[Suc n..<Suc k] \<noteq> []" using lt by simp
  from first lt have tk: "resp_nextPageToken (resp n) \<noteq> None" by simp
  show ?case
    using Suc.hyps(1) [OF d le] seq tk ne lt unfolding up by (simp del: upt_Suc)
qed

text \<open>
  The loop need not return: against a store whose every response carries a continuation
  token, \<^verbatim>\<open>query_metadata\<close> has no result.
\<close>

lemma query_loop_token_forever:
  assumes run: "query_loop svc query flds n acc tok w = Some r"
  shows "\<not> (\<forall>m req. \<exists>p t. files_list svc m req = Inr p \<and> resp_nextPageToken p = Some t)"
proof (rule query_loop.raw_induct
        [OF _ run, where P = "\<lambda>svc query flds n acc tok w r.
           \<not> (\<forall>m req. \<exists>p t. files_list svc m req = Inr p \<and> resp_nextPageToken p = Some t)"])
  fix loop svc query flds n acc page_token w y
  assume IH: "\<And>svc query flds n acc page_token w y.
      loop svc query flds n acc page_token w = Some y \<Longrightarrow>
      \<not> (\<forall>m req. \<exists>p t. files_list svc m req = Inr p \<and> resp_nextPageToken p = Some t)"
    and eq: "(case files_list svc n (list_request query flds page_token) of
          Inl e \<Rightarrow> Some (Inl e, issue (FilesList (list_request query flds page_token)) w)
        | Inr r \<Rightarrow>
            (case resp_nextPageToken r of
               None \<Rightarrow>
                 Some (Inr (acc @ page_files r),
                       issue (FilesList (list_request query flds page_token)) w)
             | Some t \<Rightarrow>
                 loop svc query flds (Suc n) (acc @ page_files r) (Some t)
                   (issue (FilesList (list_request query flds page_token)) w))) = Some y"
  show "\<not> (\<forall>m req. \<exists>p t. files_list svc m req = Inr p \<and> resp_nextPageToken p = Some t)"
  proof
    assume always: "\<forall>m req. \<exists>p t. files_list svc m req = Inr p \<and> resp_nextPageToken p = Some t"
    then obtain p t where "files_list svc n (list_request query flds page_token) = Inr p"
      and "resp_nextPageToken p = Some t" by blast
    with eq have "loop svc query flds (Suc n) (acc @ page_files p) (Some t)
                   (issue (FilesList (list_request query flds page_token)) w) = Some y"
      by simp
    from IH [OF this] always show False by blast
  qed
qed

lemma query_metadata_never_returns:
  assumes "\<forall>m req. \<exists>p t. files_list svc m req = Inr p \<and> resp_nextPageToken p = Some t"
  shows "query_metadata svc query flds w = None"
proof (cases "query_metadata svc query flds w")
  case None
  then show ?thesis .
next
  case (Some r)
  then have "query_loop svc query flds 0 [] None w = Some r" by (simp add: query_metadata_def)
  from query_loop_token_forever [OF this] assms show ?thesis by blast
qed

section \<open>The chunk loop\<close>

lemma chunk_loop_step:
  "next_chunk svc fileId n = Inr (d, False) \<Longrightarrow>
   chunk_loop svc fileId p n buf w =
     chunk_loop svc fileId p (Suc n) (buf @ d)
       (write_file p (buf @ d) (issue (NextChunk fileId) w))"
  by (subst chunk_loop.simps) simp

lemma chunk_loop_done:
  "next_chunk svc fileId n = Inr (d, True) \<Longrightarrow>
   chunk_loop svc fileId p n buf w =
     Some (Inr (), write_file p (buf @ d) (issue (NextChunk fileId) w))"
  by (subst chunk_loop.simps) simp

lemma chunk_loop_raise:
  "next_chunk svc fileId n = Inl e \<Longrightarrow>
   chunk_loop svc fileId p n buf w = Some (Inl e, issue (NextChunk fileId) w)"
  by (subst chunk_loop.simps) simp

lemma chunk_loop_delivers:
  "delivers svc fileId n chunks \<Longrightarrow>
   chunk_loop svc fileId p n buf w =
     Some (Inr (), w\<lparr>disk := (disk w)(p \<mapsto> RegularFile (buf @ concat chunks)),
                     calls := calls w @ replicate (length chunks) (NextChunk fileId)\<rparr>)"
proof (induction chunks arbitrary: n buf w)
  case Nil
  then show ?case by simp
next
  case (Cons d ds)
  show ?case
  proof (cases "ds = []")
    case True
    with Cons.prems show ?thesis
      by (simp add: chunk_loop_done issue_def write_file_def fun_upd_def)
  next
    case False
    with Cons.prems have c: "next_chunk svc fileId n = Inr (d, False)"
      and rest: "delivers svc fileId (Suc n) ds" by auto
    show ?thesis
      unfolding chunk_loop_step [OF c] Cons.IH [OF rest]
      by (simp add: issue_def write_file_def replicate_app_Cons_same fun_upd_def
            cong: if_cong)
  qed
qed

lemma chunk_loop_breaks:
  "breaks_after svc fileId n chunks e \<Longrightarrow> disk w p = Some (RegularFile buf) \<Longrightarrow>
   chunk_loop svc fileId p n buf w =
     Some (Inl e, w\<lparr>disk := (disk w)(p \<mapsto> RegularFile (buf @ concat chunks)),
                    calls := calls w @ replicate (Suc (length chunks)) (NextChunk fileId)\<rparr>)"
proof (induction chunks arbitrary: n buf w)
  case Nil
  then have "(disk w)(p \<mapsto> RegularFile buf) = disk w" by (simp add: fun_upd_idem)
  with Nil show ?case
    by (simp add: chunk_loop_raise issue_def)
next
  case (Cons d ds)
  then have c: "next_chunk svc fileId n = Inr (d, False)"
    and rest: "breaks_after svc fileId (Suc n) ds e" by auto
  have inv: "disk (write_file p (buf @ d) (issue (NextChunk fileId) w)) p
               = Some (RegularFile (buf @ d))"
    by (simp add: write_file_def)
  show ?case
    unfolding chunk_loop_step [OF c] Cons.IH [OF rest inv]
    by (simp add: issue_def write_file_def replicate_app_Cons_same fun_upd_def
          cong: if_cong)
qed


lemma chunk_loop_returns_file:
  assumes "chunk_loop svc fileId p n buf w = Some r"
  shows "fst r = Inr () \<longrightarrow> isfile (snd r) p"
  by (rule chunk_loop.raw_induct
        [OF _ assms, where P = "\<lambda>svc fileId p n buf w r. fst r = Inr () \<longrightarrow> isfile (snd r) p"])
     (auto simp: issue_def write_file_def isfile_def split: sum.splits prod.splits if_splits)

section \<open>Downloading one file and many\<close>


lemma download_metadata_returns_file:
  assumes run: "download_metadata svc fileId p w = Some (Inr u, w')"
  shows "isfile w' p"
proof (cases "open_w p w")
  case (Inl e)
  with run show ?thesis by (simp add: download_metadata_def)
next
  case (Inr w1)
  with run have "chunk_loop svc fileId p 0 [] w1 = Some (Inr u, w')"
    by (simp add: download_metadata_def)
  from chunk_loop_returns_file [OF this] show ?thesis by simp
qed

lemma download_file_cases:
  "download_file svc fileId p w =
     (if isfile w p
      then Some (Inr (), print ''-- Download failed: File already exists''
                   (print (''-- Downloading file with ID='' @ fileId @ '' to '' @ p) w))
      else (case download_metadata svc fileId p
                  (print (''-- Downloading file with ID='' @ fileId @ '' to '' @ p) w) of
              None \<Rightarrow> None
            | Some (Inl e, w2) \<Rightarrow> Some (Inl e, w2)
            | Some (Inr u, w2) \<Rightarrow> Some (Inr (), print ''-- Download successful'' w2)))"
  by (simp add: download_file_def Let_def)



lemma download_file_returns_file:
  assumes run: "download_file svc fileId p w = Some (Inr u, w')"
  shows "isfile w' p"
proof (cases "isfile w p")
  case True
  with run show ?thesis by (auto simp: download_file_cases)
next
  case False
  with run obtain u' w2 where
    dm: "download_metadata svc fileId p
           (print (''-- Downloading file with ID='' @ fileId @ '' to '' @ p) w) = Some (Inr u', w2)"
    and w': "w' = print ''-- Download successful'' w2"
    by (auto simp: download_file_cases split: option.splits sum.splits prod.splits)
  from download_metadata_returns_file [OF dm] w' show ?thesis by simp
qed

lemma download_files_Cons_ok:
  "getitem item ''name'' = Inr basename \<Longrightarrow> getitem item ''id'' = Inr fileId \<Longrightarrow>
   download_file svc fileId (join save_folder basename) w = Some (Inr u, w') \<Longrightarrow>
   download_files svc (item # rest) save_folder w = download_files svc rest save_folder w'"
  by simp

lemma download_files_Cons_raise:
  "getitem item ''name'' = Inr basename \<Longrightarrow> getitem item ''id'' = Inr fileId \<Longrightarrow>
   download_file svc fileId (join save_folder basename) w = Some (Inl e, w') \<Longrightarrow>
   download_files svc (item # rest) save_folder w = Some (Inl e, w')"
  by simp

lemma download_files_Cons_result:
  assumes "download_files svc (item # rest) save_folder w = Some r"
  shows "(\<exists>e. r = (Inl e, w)) \<or>
         (\<exists>basename fileId r1. getitem item ''name'' = Inr basename \<and> getitem item ''id'' = Inr fileId \<and>
            download_file svc fileId (join save_folder basename) w = Some r1 \<and>
            (case fst r1 of Inl e \<Rightarrow> r = r1 | Inr u \<Rightarrow> download_files svc rest save_folder (snd r1) = Some r))"
proof (cases "getitem item ''name''")
  case (Inl e)
  with assms show ?thesis by auto
next
  case name: (Inr basename)
  show ?thesis
  proof (cases "getitem item ''id''")
    case (Inl e)
    with name assms show ?thesis by auto
  next
    case id: (Inr fileId)
    show ?thesis
    proof (cases "download_file svc fileId (join save_folder basename) w")
      case None
      with name id assms show ?thesis by simp
    next
      case (Some r1)
      obtain a w1 where r1: "r1 = (a, w1)" by (cases r1)
      show ?thesis
      proof (cases a)
        case (Inl e)
        with name id Some r1 assms show ?thesis by auto
      next
        case (Inr u)
        with name id Some r1 assms show ?thesis by auto
      qed
    qed
  qed
qed


lemma download_files_append:
  "download_files svc xs save_folder w = Some (Inr (), w1) \<Longrightarrow>
   download_files svc (xs @ ys) save_folder w = download_files svc ys save_folder w1"
proof (induction xs arbitrary: w)
  case Nil
  then show ?case by simp
next
  case (Cons item rest)
  from download_files_Cons_result [OF Cons.prems]
  obtain basename fileId r1 where name: "getitem item ''name'' = Inr basename"
    and id: "getitem item ''id'' = Inr fileId"
    and one: "download_file svc fileId (join save_folder basename) w = Some r1"
    and r1: "case fst r1 of Inl e \<Rightarrow> (Inr (), w1) = r1
             | Inr u \<Rightarrow> download_files svc rest save_folder (snd r1) = Some (Inr (), w1)"
    by auto
  from r1 obtain u where u: "fst r1 = Inr u"
    and rest: "download_files svc rest save_folder (snd r1) = Some (Inr (), w1)"
    by (cases "fst r1") auto
  from u one have one': "download_file svc fileId (join save_folder basename) w = Some (Inr u, snd r1)"
    by (cases r1) simp
  show ?case
    using Cons.IH [OF rest] download_files_Cons_ok [OF name id one'] by simp
qed









section \<open>The concrete store\<close>

lemma example_chunks_ok: "delivers example_service ''a1'' 0 [''he'', ''llo'']"
  by (simp add: example_service_def)

lemma example_chunks_break: "breaks_after example_service ''a2'' 0 [''par''] TransportError"
  by (simp add: example_service_def)

lemma example_pages: "serves example_service query flds 0 None [page_one, page_two]"
  by (simp add: example_service_def list_request_def page_one_def page_two_def)

lemma example_download_x:
  "download_file example_service ''a1'' ''dest/x.txt'' empty_world =
     Some (Inr (),
           empty_world\<lparr>disk := [''dest/x.txt'' \<mapsto> RegularFile ''hello''],
             calls := [NextChunk ''a1'', NextChunk ''a1''],
             stdout := [''-- Downloading file with ID=a1 to dest/x.txt'',
                        ''-- Download successful'']\<rparr>)"
  by (simp add: download_file_cases
        isfile_def download_metadata_def open_w_def empty_world_def print_def
        chunk_loop_delivers [OF example_chunks_ok]
        fun_upd_def cong: if_cong)

lemma example_download_y:
  "download_file example_service ''a2'' ''dest/y.txt''
     (empty_world\<lparr>disk := [''dest/x.txt'' \<mapsto> RegularFile ''hello''],
             calls := [NextChunk ''a1'', NextChunk ''a1''],
             stdout := [''-- Downloading file with ID=a1 to dest/x.txt'',
                        ''-- Download successful'']\<rparr>) =
     Some (Inl TransportError,
           empty_world\<lparr>disk := [''dest/x.txt'' \<mapsto> RegularFile ''hello'',
                               ''dest/y.txt'' \<mapsto> RegularFile ''par''],
             calls := [NextChunk ''a1'', NextChunk ''a1'', NextChunk ''a2'', NextChunk ''a2''],
             stdout := [''-- Downloading file with ID=a1 to dest/x.txt'',
                        ''-- Download successful'',
                        ''-- Downloading file with ID=a2 to dest/y.txt'']\<rparr>)"
  by (simp add: download_file_cases
        isfile_def download_metadata_def open_w_def empty_world_def print_def
        chunk_loop_breaks [OF example_chunks_break]
        fun_upd_def cong: if_cong)




section \<open>Skip-if-present download\<close>

text \<open>
  Claim C1. Whenever a regular file already exists at the destination path,
  \<^verbatim>\<open>download_file\<close> returns normally through its skip branch: it prints the two lines of
  that branch and changes nothing else. The calls issued are the same before and after,
  whatever the service is, so \<^verbatim>\<open>download_metadata\<close> is never invoked, and the disk is
  untouched.
\<close>

theorem download_file_skips_existing_file:
  assumes "isfile w save_file"
  shows "download_file svc cloud_file_id save_file w =
           Some (Inr (),
                 w\<lparr>stdout := stdout w @
                    [''-- Downloading file with ID='' @ cloud_file_id @ '' to '' @ save_file,
                     ''-- Download failed: File already exists'']\<rparr>)"
  using assms by (simp add: download_file_cases print_def)

theorem download_file_skips_existing_file_witness:
  "isfile x_world ''dest/x.txt'' \<and>
   download_file example_service ''a1'' ''dest/x.txt'' x_world =
     Some (Inr (),
           x_world\<lparr>stdout :=
              [''-- Downloading file with ID=a1 to dest/x.txt'',
               ''-- Download failed: File already exists'']\<rparr>)"
proof -
  have h: "isfile x_world ''dest/x.txt''"
    by (simp add: isfile_def x_world_def empty_world_def)
  have "stdout x_world = []" by (simp add: x_world_def empty_world_def)
  with h download_file_skips_existing_file [OF h, of example_service "''a1''"]
  show ?thesis by simp
qed

section \<open>Bulk download\<close>

text \<open>
  Claim C2, as amended. \<^verbatim>\<open>download_files\<close> handles the items in listing order and has no
  handler for a failing item: when the items before some item have been processed without
  an exception and that item's \<^verbatim>\<open>download_file\<close> raises, the exception leaves
  \<^verbatim>\<open>download_files\<close> at once, in the world the failing download left behind, whatever items
  remain. Nothing is returned for any item.
\<close>

theorem download_files_stops_at_first_raise:
  assumes "download_files svc processed save_folder w = Some (Inr (), w1)"
      and "getitem item ''name'' = Inr basename"
      and "getitem item ''id'' = Inr fileId"
      and "download_file svc fileId (join save_folder basename) w1 = Some (Inl e, w2)"
  shows "download_files svc (processed @ item # remaining) save_folder w = Some (Inl e, w2)"
  using download_files_append [OF assms(1)] download_files_Cons_raise [OF assms(2-4)]
  by simp

theorem download_files_stops_at_first_raise_witness:
  "download_files example_service ([item_x] @ item_y # [item_z]) ''dest'' empty_world =
     Some (Inl TransportError,
           empty_world\<lparr>disk := [''dest/x.txt'' \<mapsto> RegularFile ''hello'',
                               ''dest/y.txt'' \<mapsto> RegularFile ''par''],
             calls := [NextChunk ''a1'', NextChunk ''a1'', NextChunk ''a2'', NextChunk ''a2''],
             stdout := [''-- Downloading file with ID=a1 to dest/x.txt'',
                        ''-- Download successful'',
                        ''-- Downloading file with ID=a2 to dest/y.txt'']\<rparr>)"
proof -
  have h1: "download_files example_service [item_x] ''dest'' empty_world =
     Some (Inr (),
           empty_world\<lparr>disk := [''dest/x.txt'' \<mapsto> RegularFile ''hello''],
             calls := [NextChunk ''a1'', NextChunk ''a1''],
             stdout := [''-- Downloading file with ID=a1 to dest/x.txt'',
                        ''-- Download successful'']\<rparr>)"
    using example_download_x by (simp add: item_x_def getitem_def join_def)
  have h2: "getitem item_y ''name'' = Inr ''y.txt''" by (simp add: item_y_def getitem_def)
  have h3: "getitem item_y ''id'' = Inr ''a2''" by (simp add: item_y_def getitem_def)
  have j: "join ''dest'' ''y.txt'' = ''dest/y.txt''" by (simp add: join_def)
  show ?thesis
    by (rule download_files_stops_at_first_raise [OF h1 h2 h3])
       (simp only: j example_download_y)
qed

text \<open>
  Claim C2 as stated fails on a listing of three items whose second download breaks: the
  call raises, no chunk of the third item is requested, the third file is not created and
  no line is printed for it.
\<close>

theorem download_files_isolation_counterexample:
  "download_files example_service [item_x, item_y, item_z] ''dest'' empty_world =
     Some (Inl TransportError,
           empty_world\<lparr>disk := [''dest/x.txt'' \<mapsto> RegularFile ''hello'',
                               ''dest/y.txt'' \<mapsto> RegularFile ''par''],
             calls := [NextChunk ''a1'', NextChunk ''a1'', NextChunk ''a2'', NextChunk ''a2''],
             stdout := [''-- Downloading file with ID=a1 to dest/x.txt'',
                        ''-- Download successful'',
                        ''-- Downloading file with ID=a2 to dest/y.txt'']\<rparr>)"
  by (simp add: item_x_def item_y_def item_z_def getitem_def join_def download_file_cases
        isfile_def download_metadata_def open_w_def empty_world_def print_def
        chunk_loop_delivers [OF example_chunks_ok]
        chunk_loop_breaks [OF example_chunks_break]
        fun_upd_def cong: if_cong)

section \<open>Two items with one name\<close>




section \<open>A download that fails\<close>

text \<open>
  Claim C3, as amended. With nothing at the destination path, a failing download raises
  out of \<^verbatim>\<open>download_file\<close>. When opening the destination raises, the path stays absent.
  When a chunk request raises after the destination was opened, the destination is left
  as a regular file holding exactly the chunks received before the failure (an empty file
  when the first chunk request raises).
\<close>

theorem download_file_failure_leaves_partial:
  assumes "disk w save_file = None"
  shows "(open_error w save_file = Some e \<longrightarrow>
            download_file svc fileId save_file w =
              Some (Inl e,
                    w\<lparr>stdout := stdout w @
                       [''-- Downloading file with ID='' @ fileId @ '' to '' @ save_file]\<rparr>)) \<and>
         (open_error w save_file = None \<and> breaks_after svc fileId 0 chunks e \<longrightarrow>
            download_file svc fileId save_file w =
              Some (Inl e,
                    w\<lparr>disk := (disk w)(save_file \<mapsto> RegularFile (concat chunks)),
                      calls := calls w @ replicate (Suc (length chunks)) (NextChunk fileId),
                      stdout := stdout w @
                       [''-- Downloading file with ID='' @ fileId @ '' to '' @ save_file]\<rparr>))"
proof (intro conjI impI)
  assume "open_error w save_file = Some e"
  with assms show "download_file svc fileId save_file w =
      Some (Inl e, w\<lparr>stdout := stdout w @
                       [''-- Downloading file with ID='' @ fileId @ '' to '' @ save_file]\<rparr>)"
    by (simp add: download_file_cases isfile_def download_metadata_def open_w_def print_def)
next
  let ?w1 = "print (''-- Downloading file with ID='' @ fileId @ '' to '' @ save_file) w"
  let ?w2 = "?w1\<lparr>disk := (disk ?w1)(save_file \<mapsto> RegularFile [])\<rparr>"
  assume h: "open_error w save_file = None \<and> breaks_after svc fileId 0 chunks e"
  with assms have op: "open_w save_file ?w1 = Inr ?w2"
    by (simp add: open_w_def)
  have inv: "disk ?w2 save_file = Some (RegularFile [])" by simp
  from h have br: "breaks_after svc fileId 0 chunks e" by simp
  have "download_metadata svc fileId save_file ?w1 =
          Some (Inl e, ?w2\<lparr>disk := (disk ?w2)(save_file \<mapsto> RegularFile ([] @ concat chunks)),
                    calls := calls ?w2 @ replicate (Suc (length chunks)) (NextChunk fileId)\<rparr>)"
    unfolding download_metadata_def op using chunk_loop_breaks [OF br inv] by simp
  with assms show "download_file svc fileId save_file w =
      Some (Inl e,
            w\<lparr>disk := (disk w)(save_file \<mapsto> RegularFile (concat chunks)),
              calls := calls w @ replicate (Suc (length chunks)) (NextChunk fileId),
              stdout := stdout w @
                 [''-- Downloading file with ID='' @ fileId @ '' to '' @ save_file]\<rparr>)"
    by (simp add: download_file_cases isfile_def print_def fun_upd_def cong: if_cong)
qed

theorem download_file_failure_leaves_partial_witness:
  "(disk locked_world ''dest/y.txt'' = None \<and>
    open_error locked_world ''dest/y.txt'' = Some (OSError ''dest/y.txt'') \<and>
    download_file example_service ''a2'' ''dest/y.txt'' locked_world =
      Some (Inl (OSError ''dest/y.txt''),
            locked_world\<lparr>stdout := [''-- Downloading file with ID=a2 to dest/y.txt'']\<rparr>)) \<and>
   (disk empty_world ''dest/y.txt'' = None \<and>
    open_error empty_world ''dest/y.txt'' = None \<and>
    breaks_after example_service ''a2'' 0 [''par''] TransportError \<and>
    download_file example_service ''a2'' ''dest/y.txt'' empty_world =
      Some (Inl TransportError,
            empty_world\<lparr>disk := [''dest/y.txt'' \<mapsto> RegularFile ''par''],
              calls := [NextChunk ''a2'', NextChunk ''a2''],
              stdout := [''-- Downloading file with ID=a2 to dest/y.txt'']\<rparr>))"
proof -
  have a1: "disk locked_world ''dest/y.txt'' = None"
    by (simp add: locked_world_def empty_world_def)
  have a2: "open_error locked_world ''dest/y.txt'' = Some (OSError ''dest/y.txt'')"
    by (simp add: locked_world_def empty_world_def)
  have a3: "stdout locked_world = []" by (simp add: locked_world_def empty_world_def)
  have b1: "disk empty_world ''dest/y.txt'' = None" by (simp add: empty_world_def)
  have b2: "open_error empty_world ''dest/y.txt'' = None" by (simp add: empty_world_def)
  have b3: "calls empty_world = [] \<and> stdout empty_world = [] \<and> disk empty_world = Map.empty"
    by (simp add: empty_world_def)
  from download_file_failure_leaves_partial
         [OF a1, of "OSError ''dest/y.txt''" example_service "''a2''"] a1 a2 a3
  have first: "download_file example_service ''a2'' ''dest/y.txt'' locked_world =
      Some (Inl (OSError ''dest/y.txt''),
            locked_world\<lparr>stdout := [''-- Downloading file with ID=a2 to dest/y.txt'']\<rparr>)"
    by simp
  from download_file_failure_leaves_partial
         [OF b1, of TransportError example_service "''a2''" "[''par'']"]
       b2 b3 example_chunks_break
  have second: "download_file example_service ''a2'' ''dest/y.txt'' empty_world =
      Some (Inl TransportError,
            empty_world\<lparr>disk := [''dest/y.txt'' \<mapsto> RegularFile ''par''],
              calls := [NextChunk ''a2'', NextChunk ''a2''],
              stdout := [''-- Downloading file with ID=a2 to dest/y.txt'']\<rparr>)"
    by simp
  from a1 a2 b1 b2 first second example_chunks_break show ?thesis by simp
qed

text \<open>
  Claim C3 as stated fails when the second chunk request of a download raises: the
  destination was absent before the call and holds the first chunk after it.
\<close>

theorem download_file_partial_counterexample:
  "disk empty_world ''dest/y.txt'' = None \<and>
   download_file example_service ''a2'' ''dest/y.txt'' empty_world =
     Some (Inl TransportError,
           empty_world\<lparr>disk := [''dest/y.txt'' \<mapsto> RegularFile ''par''],
             calls := [NextChunk ''a2'', NextChunk ''a2''],
             stdout := [''-- Downloading file with ID=a2 to dest/y.txt'']\<rparr>)"
  by (simp add: download_file_cases
        isfile_def download_metadata_def open_w_def empty_world_def print_def
        chunk_loop_breaks [OF example_chunks_break]
        fun_upd_def cong: if_cong)

section \<open>Pagination\<close>

text \<open>
  Claim C4. When the store serves the pages of a listing joined by continuation tokens,
  \<^verbatim>\<open>query_metadata\<close> returns the items of all pages, each once and in the order served,
  whatever the sizes of the pages, after one request per page: the first without a token
  and each later one with the token of the page before it.
\<close>

theorem query_metadata_all_pages:
  assumes "serves svc query flds 0 None pages"
  shows "query_metadata svc query flds w =
           Some (Inr (concat (map page_files pages)),
                 w\<lparr>calls := calls w @
                      map (FilesList \<circ> list_request query flds) (page_tokens None pages)\<rparr>) \<and>
         length (page_tokens None pages) = length pages"
  using query_loop_serves [OF assms, of "[]" w]
  by (simp add: query_metadata_def length_page_tokens)

theorem query_metadata_all_pages_witness:
  "serves example_service ''trashed = false'' ''id, name'' 0 None [page_one, page_two] \<and>
   query_metadata example_service ''trashed = false'' ''id, name'' empty_world =
     Some (Inr [item_x, item_y],
           empty_world\<lparr>calls :=
             [FilesList (list_request ''trashed = false'' ''id, name'' None),
              FilesList (list_request ''trashed = false'' ''id, name'' (Some ''t1''))]\<rparr>)"
proof -
  have c: "calls empty_world = []" by (simp add: empty_world_def)
  from query_metadata_all_pages [OF example_pages, of "''trashed = false''" "''id, name''" empty_world]
       example_pages [of "''trashed = false''" "''id, name''"] c
  show ?thesis
    by (simp add: page_files_def page_one_def page_two_def)
qed

text \<open>
  Claim C8. For a sequence of responses of which some response carries no continuation
  token, the loop of \<^verbatim>\<open>query_metadata\<close> returns: it stops at the first response without a
  token, number \<open>k\<close> counting from zero, after \<open>k + 1\<close> requests, with the items of the
  responses up to that one.
\<close>

theorem query_metadata_terminates:
  assumes seq: "\<And>n tok. files_list svc n (list_request query flds tok) = Inr (resp n)"
      and ex: "\<exists>k. resp_nextPageToken (resp k) = None"
  shows "\<exists>k. resp_nextPageToken (resp k) = None \<and>
             (\<forall>j<k. resp_nextPageToken (resp j) \<noteq> None) \<and>
             query_metadata svc query flds w =
               Some (Inr (concat (map (page_files \<circ> resp) [0..<Suc k])),
                     w\<lparr>calls := calls w @
                          map (FilesList \<circ> list_request query flds)
                            (page_tokens None (map resp [0..<Suc k]))\<rparr>) \<and>
             length (page_tokens None (map resp [0..<Suc k])) = Suc k"
proof -
  define k where "k = (LEAST k. resp_nextPageToken (resp k) = None)"
  from ex have last: "resp_nextPageToken (resp k) = None"
    unfolding k_def by (rule LeastI_ex)
  have first: "\<forall>j<k. resp_nextPageToken (resp j) \<noteq> None"
    unfolding k_def using not_less_Least by blast
  have "serves svc query flds 0 None (map resp [0..<Suc k])"
    by (rule serves_sequence [OF seq last first]) simp
  from query_loop_serves [OF this, of "[]" w]
  have "query_metadata svc query flds w =
               Some (Inr (concat (map (page_files \<circ> resp) [0..<Suc k])),
                     w\<lparr>calls := calls w @
                          map (FilesList \<circ> list_request query flds)
                            (page_tokens None (map resp [0..<Suc k]))\<rparr>)"
    by (simp add: query_metadata_def del: upt_Suc)
  moreover have "length (page_tokens None (map resp [0..<Suc k])) = Suc k"
    by (simp add: length_page_tokens del: upt_Suc)
  ultimately show ?thesis using last first by blast
qed

theorem query_metadata_terminates_witness:
  "(\<exists>k. resp_nextPageToken (example_sequence k) = None) \<and>
   query_metadata sequence_service ''trashed = false'' ''id, name'' empty_world =
     Some (Inr [item_x, item_y],
           empty_world\<lparr>calls :=
             [FilesList (list_request ''trashed = false'' ''id, name'' None),
              FilesList (list_request ''trashed = false'' ''id, name'' (Some ''t1''))]\<rparr>)"
proof -
  have seq: "\<And>n tok. files_list sequence_service n
                (list_request ''trashed = false'' ''id, name'' tok) = Inr (example_sequence n)"
    by (simp add: sequence_service_def)
  have "resp_nextPageToken (example_sequence 1) = None"
    by (simp add: example_sequence_def page_two_def)
  then have ex: "\<exists>k. resp_nextPageToken (example_sequence k) = None" ..
  from query_metadata_terminates [OF seq ex, of empty_world]
  obtain k where last: "resp_nextPageToken (example_sequence k) = None"
    and first: "\<forall>j<k. resp_nextPageToken (example_sequence j) \<noteq> None"
    and run: "query_metadata sequence_service ''trashed = false'' ''id, name'' empty_world =
               Some (Inr (concat (map (page_files \<circ> example_sequence) [0..<Suc k])),
                     empty_world\<lparr>calls := calls empty_world @
                          map (FilesList \<circ> list_request ''trashed = false'' ''id, name'')
                            (page_tokens None (map example_sequence [0..<Suc k]))\<rparr>)"
    by blast
  from last have "k \<noteq> 0"
    by (auto simp: example_sequence_def page_one_def split: if_splits)
  moreover have "\<not> 1 < k"
  proof
    assume "1 < k"
    with first have "resp_nextPageToken (example_sequence 1) \<noteq> None" by blast
    then show False by (simp add: example_sequence_def page_two_def)
  qed
  ultimately have k: "k = Suc 0" by simp
  have c: "calls empty_world = []" by (simp add: empty_world_def)
  from run ex show ?thesis
    unfolding k
    by (simp add: c example_sequence_def page_files_def page_one_def page_two_def)
qed

text \<open>
  Claim C7. \<^verbatim>\<open>listdir_cloud_folder\<close> is the paginated query for the objects whose parents
  contain the folder id, with the fields \<^verbatim>\<open>id, name\<close>, and returns what that query returns.
  When the store serves pages, every request carries that query string and asks for
  \<^verbatim>\<open>nextPageToken, files(id, name)\<close>, and the result is the items of the pages as served:
  in order, nothing removed, equal names kept.
\<close>

theorem listdir_cloud_folder_forwards:
  "listdir_cloud_folder svc cloud_folder_id w =
     query_metadata svc (CHR 0x27 # cloud_folder_id @ CHR 0x27 # '' in parents'') ''id, name'' w \<and>
   (serves svc (CHR 0x27 # cloud_folder_id @ CHR 0x27 # '' in parents'') ''id, name'' 0 None pages
      \<longrightarrow>
    listdir_cloud_folder svc cloud_folder_id w =
      Some (Inr (concat (map page_files pages)),
            w\<lparr>calls := calls w @
                 map (\<lambda>t. FilesList
                        \<lparr>req_q = CHR 0x27 # cloud_folder_id @ CHR 0x27 # '' in parents'',
                         req_spaces = ''drive'',
                         req_fields = ''nextPageToken, files(id, name)'',
                         req_pageToken = t\<rparr>)
                     (page_tokens None pages)\<rparr>))"
proof (intro conjI impI)
  show "listdir_cloud_folder svc cloud_folder_id w =
     query_metadata svc (CHR 0x27 # cloud_folder_id @ CHR 0x27 # '' in parents'') ''id, name'' w"
    by (simp add: listdir_cloud_folder_def)
next
  assume "serves svc (CHR 0x27 # cloud_folder_id @ CHR 0x27 # '' in parents'') ''id, name'' 0 None pages"
  from query_loop_serves [OF this, of "[]" w]
  show "listdir_cloud_folder svc cloud_folder_id w =
      Some (Inr (concat (map page_files pages)),
            w\<lparr>calls := calls w @
                 map (\<lambda>t. FilesList
                        \<lparr>req_q = CHR 0x27 # cloud_folder_id @ CHR 0x27 # '' in parents'',
                         req_spaces = ''drive'',
                         req_fields = ''nextPageToken, files(id, name)'',
                         req_pageToken = t\<rparr>)
                     (page_tokens None pages)\<rparr>)"
    by (simp add: listdir_cloud_folder_def query_metadata_def list_request_def comp_def)
qed

theorem listdir_cloud_folder_forwards_witness:
  "serves example_service (CHR 0x27 # ''F'' @ CHR 0x27 # '' in parents'') ''id, name'' 0 None
     [page_one, page_two] \<and>
   listdir_cloud_folder example_service ''F'' empty_world =
     Some (Inr [item_x, item_y],
           empty_world\<lparr>calls :=
             [FilesList \<lparr>req_q = CHR 0x27 # ''F'' @ CHR 0x27 # '' in parents'',
                         req_spaces = ''drive'',
                         req_fields = ''nextPageToken, files(id, name)'',
                         req_pageToken = None\<rparr>,
              FilesList \<lparr>req_q = CHR 0x27 # ''F'' @ CHR 0x27 # '' in parents'',
                         req_spaces = ''drive'',
                         req_fields = ''nextPageToken, files(id, name)'',
                         req_pageToken = Some ''t1''\<rparr>]\<rparr>)"
proof -
  have c: "calls empty_world = []" by (simp add: empty_world_def)
  note p = example_pages [of "CHR 0x27 # ''F'' @ CHR 0x27 # '' in parents''" "''id, name''"]
  from listdir_cloud_folder_forwards
         [of example_service "''F''" empty_world "[page_one, page_two]",
          THEN conjunct2, rule_format, OF p]
       p c
  show ?thesis
    by (simp add: page_files_def page_one_def page_two_def)
qed

section \<open>Credentials\<close>







text \<open>
  Claim C9. When the token file holds a valid credential, \<^verbatim>\<open>get_api_service\<close> builds the
  service from it and leaves the world as it found it: no refresh, no interactive flow,
  and the disk, the token file included, unchanged.
\<close>

theorem get_api_service_valid_frame:
  assumes "disk w (TOKEN_FILE cfg) = Some (RegularFile s)"
      and "from_authorized_user_info au s (SCOPES cfg) = Inr c"
      and "valid c"
  shows "get_api_service cfg au w = (build au (API_NAME cfg) (API_VERSION cfg) c, w)"
  using assms
  by (simp add: get_api_service_def load_credentials_def exists_path_def read_text_def)

theorem get_api_service_valid_frame_witness:
  "disk (token_world ''new'') (TOKEN_FILE example_config) = Some (RegularFile ''new'') \<and>
   valid fresh_credential \<and>
   get_api_service example_config example_auth (token_world ''new'') =
     (Inr example_service, token_world ''new'')"
proof -
  have h1: "disk (token_world ''new'') (TOKEN_FILE example_config) = Some (RegularFile ''new'')"
    by (simp add: token_world_def empty_world_def example_config_def)
  have h2: "from_authorized_user_info example_auth ''new'' (SCOPES example_config)
              = Inr fresh_credential"
    by (simp add: example_auth_def)
  have h3: "valid fresh_credential" by (simp add: fresh_credential_def valid_def)
  from get_api_service_valid_frame [OF h1 h2 h3] h1 h3 show ?thesis
    by (simp add: example_auth_def)
qed

end
